theory Spec2Isabelle
  imports Complex_Main
begin

section \<open>The time readout of WebcamComponent\<close>

text \<open>
  The component renders
  \<^verbatim>\<open>`${Math.floor(timer / 60)}:${(timer % 60).toString().padStart(2, '0')}`\<close>.
  The state variable \<open>timer\<close> is a JavaScript number that starts at \<open>30 * 60\<close> and is
  only ever changed by \<open>prevTimer - 1\<close>, so it always holds an integer (far inside the
  range where doubles are exact); it is modelled as \<open>int\<close>.
\<close>

definition digit_char :: "nat \<Rightarrow> char" where
  "digit_char n = ''0123456789'' ! n"

text \<open>Decimal digits of a natural number, most significant first.\<close>

function digits :: "nat \<Rightarrow> string" where
  "digits n = (if n < 10 then [digit_char n] else digits (n div 10) @ [digit_char (n mod 10)])"
  by pat_completeness auto
termination
  by (relation "measure (\<lambda>n. n)") auto

declare digits.simps [simp del]

text \<open>\<open>Number.prototype.toString\<close> on an integer value: a minus sign for negatives, then the digits.\<close>

definition toString :: "int \<Rightarrow> string" where
  "toString i = (if i < 0 then CHR ''-'' # digits (nat (- i)) else digits (nat i))"

text \<open>\<open>String.prototype.padStart\<close> with a one-character pad string.\<close>

definition padStart :: "nat \<Rightarrow> char \<Rightarrow> string \<Rightarrow> string" where
  "padStart n c s = replicate (n - length s) c @ s"

text \<open>
  \<open>Math.floor(a / b)\<close> on integers is the floor of the exact quotient, which is \<open>div\<close> on
  \<open>int\<close>. The operator \<open>%\<close> is the truncated remainder: it takes the sign of the
  dividend. (JavaScript yields \<open>-0\<close> for a negative multiple; \<open>(-0).toString()\<close> is
  \<open>"0"\<close>, which is what the integer \<open>0\<close> prints as here.)
\<close>

definition Math_floor_div :: "int \<Rightarrow> int \<Rightarrow> int" where
  "Math_floor_div a b = a div b"

definition js_rem :: "int \<Rightarrow> int \<Rightarrow> int" where
  "js_rem a b = sgn a * (\<bar>a\<bar> mod \<bar>b\<bar>)"

definition display :: "int \<Rightarrow> string" where
  "display t = toString (Math_floor_div t 60) @ '':'' @ padStart 2 (CHR ''0'') (toString (js_rem t 60))"

subsection \<open>The readout as the specification words it\<close>

text \<open>
  The specification describes the readout as the minutes, a colon, and the seconds
  zero-padded to two digits. \<open>pad2\<close> writes the tens digit and the units digit.
\<close>

definition pad2 :: "nat \<Rightarrow> string" where
  "pad2 n = [digit_char (n div 10), digit_char (n mod 10)]"

definition spec_display :: "int \<Rightarrow> string" where
  "spec_display s = digits (nat s div 60) @ '':'' @ pad2 (nat s mod 60)"

subsection \<open>The shape \<open>M:SS\<close>\<close>

definition is_digit :: "char \<Rightarrow> bool" where
  "is_digit c = (c \<in> set ''0123456789'')"

definition minutes_field :: "string \<Rightarrow> string" where
  "minutes_field str = takeWhile (\<lambda>c. c \<noteq> CHR '':'') str"

definition seconds_field :: "string \<Rightarrow> string" where
  "seconds_field str = tl (dropWhile (\<lambda>c. c \<noteq> CHR '':'') str)"

text \<open>An integer numeral: an optional minus sign and at least one digit.\<close>

definition is_numeral :: "string \<Rightarrow> bool" where
  "is_numeral m = (case m of [] \<Rightarrow> False
     | c # r \<Rightarrow> if c = CHR ''-'' then r \<noteq> [] \<and> list_all is_digit r else list_all is_digit m)"

definition two_digits :: "string \<Rightarrow> bool" where
  "two_digits f = (length f = 2 \<and> list_all is_digit f)"

definition M_SS_form :: "string \<Rightarrow> bool" where
  "M_SS_form str = (CHR '':'' \<in> set str \<and> is_numeral (minutes_field str) \<and> two_digits (seconds_field str))"

section \<open>The component as an event-driven state machine\<close>

text \<open>
  WebcamComponent is a React function component. The repository holds two variants of
  it with the same timer effect and the same readout; the model follows the one with
  the Start button. Its behaviour over time is a sequence of
  callbacks that the browser and React run one at a time on the UI thread: the detector
  bootstrap resolving, the Start click, the camera stream being granted, the video's
  \<open>loadeddata\<close> event, an animation frame, an awaited \<open>detectForVideo\<close> resolving, the
  one-second interval firing, and the component being unmounted. Each callback is one
  event; \<open>step\<close> runs it to completion, including the re-render it causes and the effects
  React runs after that render.

  What React itself contributes is written out in the model:
  \<^item> an effect with dependencies \<open>[timerRunning, timer]\<close> is cleaned up and run again after
    a render in which one of them changed, and cleaned up at unmount;
  \<^item> a state setter called with the value the state already has causes no render;
  \<^item> a state setter called on an unmounted component changes nothing;
  \<^item> \<open>ref.current\<close> is the element while it is rendered and \<open>null\<close> otherwise, so
    \<open>canvasRef.current!.width\<close> throws a TypeError once the canvas is gone;
  \<^item> a closure sees the state of the render that created it: \<open>detectFace\<close> carries the
    value \<open>faceLandmarker\<close> had when \<open>handleStart\<close> ran.
\<close>

datatype detector = FaceLandmarker

text \<open>A landmark point, normalised coordinates (the source's floats are taken as rationals).\<close>

datatype landmark = NormalizedLandmark (x: rat) (y: rat)

text \<open>The calls made on the canvas 2D context, in order.\<close>

datatype draw_op =
    ClearRect rat rat rat rat
  | DrawImage rat rat rat rat
  | FillArc rat rat rat

text \<open>The two places in the source that call \<open>clearInterval\<close>.\<close>

datatype clear_site = PausedBranch | Cleanup

record component =
  mounted :: bool
  timer :: int
  timerRunning :: bool
  faceLandmarker :: "detector option"
  isStarted :: bool
  interval :: "nat option"
  next_id :: nat
  active_intervals :: "nat list"
  clear_log :: "(clear_site \<times> nat) list"
  loader_pending :: bool
  stream_pending :: bool
  video_src :: bool
  video_loaded :: bool
  listeners :: "detector option list"
  raf_queue :: "detector option list"
  in_flight :: "detector option list"
  canvas :: "draw_op list"
  rejections :: nat

text \<open>
  \<open>interval\<close> is the local variable of the most recent run of the timer effect.
  \<open>active_intervals\<close> are the intervals registered with the browser and not cleared.
  \<open>listeners\<close>, \<open>raf_queue\<close> and \<open>in_flight\<close> hold \<open>detectFace\<close> closures, each as the
  \<open>faceLandmarker\<close> value it captured: registered for \<open>loadeddata\<close>, passed to
  \<open>requestAnimationFrame\<close> and not yet run, and suspended at \<open>await detectForVideo\<close>.
  \<open>rejections\<close> counts async functions that ended in an uncaught exception.
\<close>

definition canvas_width :: rat where "canvas_width = 840"
definition canvas_height :: rat where "canvas_height = 680"

definition videoRef :: "component \<Rightarrow> bool" where
  "videoRef s = mounted s"

text \<open>The canvas is rendered only under \<open>isStarted\<close>.\<close>

definition canvasRef :: "component \<Rightarrow> bool" where
  "canvasRef s = (mounted s \<and> isStarted s)"

subsection \<open>Browser timers\<close>

definition setInterval :: "component \<Rightarrow> nat \<times> component" where
  "setInterval s =
     (next_id s, s\<lparr>next_id := Suc (next_id s), active_intervals := active_intervals s @ [next_id s]\<rparr>)"

definition clearInterval :: "clear_site \<Rightarrow> nat \<Rightarrow> component \<Rightarrow> component" where
  "clearInterval site h s =
     s\<lparr>active_intervals := removeAll h (active_intervals s), clear_log := clear_log s @ [(site, h)]\<rparr>"

subsection \<open>The timer effect\<close>

text \<open>
  The body of the effect: \<open>let interval = null\<close>, then the \<open>if\<close> / \<open>else if\<close>. The handle
  returned by \<open>setInterval\<close> is an object or a positive number, hence truthy; \<open>null\<close> is
  \<open>None\<close>.
\<close>

definition timer_effect :: "component \<Rightarrow> component" where
  "timer_effect s =
     (let interval0 = (None :: nat option) in
      if timerRunning s then
        (case setInterval s of (h, s1) \<Rightarrow> s1\<lparr>interval := Some h\<rparr>)
      else if \<not> timerRunning s \<and> timer s \<noteq> 0 then
        (case interval0 of
           Some h \<Rightarrow> (clearInterval PausedBranch h s)\<lparr>interval := interval0\<rparr>
         | None \<Rightarrow> s\<lparr>interval := interval0\<rparr>)
      else s\<lparr>interval := interval0\<rparr>)"

text \<open>The function the effect returns.\<close>

definition timer_cleanup :: "component \<Rightarrow> component" where
  "timer_cleanup s = (case interval s of Some h \<Rightarrow> clearInterval Cleanup h s | None \<Rightarrow> s)"

text \<open>A render in which \<open>timerRunning\<close> or \<open>timer\<close> changed: clean up, run the effect again.\<close>

definition rerender :: "component \<Rightarrow> component" where
  "rerender s = timer_effect (timer_cleanup s)"

definition setTimer :: "(int \<Rightarrow> int) \<Rightarrow> component \<Rightarrow> component" where
  "setTimer f s =
     (if mounted s \<and> f (timer s) \<noteq> timer s then rerender (s\<lparr>timer := f (timer s)\<rparr>) else s)"

definition setTimerRunning :: "bool \<Rightarrow> component \<Rightarrow> component" where
  "setTimerRunning b s =
     (if mounted s \<and> b \<noteq> timerRunning s then rerender (s\<lparr>timerRunning := b\<rparr>) else s)"

text \<open>The interval's callback.\<close>

definition interval_callback :: "component \<Rightarrow> component" where
  "interval_callback s = setTimer (\<lambda>prevTimer. prevTimer - 1) s"

subsection \<open>The frame loop\<close>

text \<open>
  \<open>detectFace\<close> up to its \<open>await\<close>: nothing at all when the captured handle is \<open>null\<close>;
  otherwise it reads the canvas context (a TypeError if the canvas is gone) and issues
  \<open>detectForVideo\<close>.
\<close>

definition reject :: "component \<Rightarrow> component" where
  "reject s = s\<lparr>rejections := Suc (rejections s)\<rparr>"

definition detectFace :: "detector option \<Rightarrow> component \<Rightarrow> component" where
  "detectFace c s =
     (case c of
        None \<Rightarrow> s
      | Some d \<Rightarrow> if canvasRef s then s\<lparr>in_flight := in_flight s @ [c]\<rparr> else reject s)"

definition draw_point :: "landmark \<Rightarrow> draw_op" where
  "draw_point point = FillArc (x point * canvas_width) (y point * canvas_height) 2"

text \<open>\<open>detectFace\<close> after its \<open>await\<close>, with \<open>results.faceLandmarks\<close>.\<close>

definition detectFace_resume :: "detector option \<Rightarrow> landmark list list \<Rightarrow> component \<Rightarrow> component" where
  "detectFace_resume c faceLandmarks s =
     (if \<not> canvasRef s then reject s
      else
        let s1 = s\<lparr>canvas := canvas s @ [ClearRect 0 0 canvas_width canvas_height,
                                          DrawImage 0 0 canvas_width canvas_height]\<rparr>;
            s2 = (case faceLandmarks of
                    landmarks # _ \<Rightarrow>
                      setTimerRunning True (s1\<lparr>canvas := canvas s1 @ map draw_point landmarks\<rparr>)
                  | [] \<Rightarrow> setTimerRunning False s1)
        in s2\<lparr>raf_queue := raf_queue s2 @ [c]\<rparr>)"

subsection \<open>Events\<close>

datatype event =
    DetectorLoaded
  | DetectorFailed
  | ClickStart
  | StreamGranted
  | StreamDenied
  | LoadedData
  | AnimationFrame
  | DetectResolved "landmark list list"
  | DetectFailed
  | Tick
  | Unmount

text \<open>
  \<open>Tick\<close> is one period of the one-second interval: every interval that is registered
  when the period ends, and still registered when its turn comes, runs its callback.
  The video fires \<open>loadeddata\<close> once, after its source has been set. None of the
  promises has a \<open>catch\<close>: a failed bootstrap, a denied camera or a failed detection
  ends its async function with an unhandled rejection and nothing else.
\<close>

fun step :: "event \<Rightarrow> component \<Rightarrow> component" where
  "step DetectorLoaded s =
     (if loader_pending s then
        (if mounted s then s\<lparr>loader_pending := False, faceLandmarker := Some FaceLandmarker\<rparr>
         else s\<lparr>loader_pending := False\<rparr>)
      else s)"
| "step DetectorFailed s =
     (if loader_pending s then reject (s\<lparr>loader_pending := False\<rparr>) else s)"
| "step ClickStart s =
     (if mounted s \<and> \<not> isStarted s then
        s\<lparr>isStarted := True, stream_pending := True,
          listeners := (if videoRef s then listeners s @ [faceLandmarker s] else listeners s)\<rparr>
      else s)"
| "step StreamGranted s =
     (if stream_pending s then
        (if videoRef s then s\<lparr>stream_pending := False, video_src := True\<rparr>
         else reject (s\<lparr>stream_pending := False\<rparr>))
      else s)"
| "step StreamDenied s =
     (if stream_pending s then reject (s\<lparr>stream_pending := False\<rparr>) else s)"
| "step LoadedData s =
     (if video_src s \<and> \<not> video_loaded s then fold detectFace (listeners s) (s\<lparr>video_loaded := True\<rparr>)
      else s)"
| "step AnimationFrame s =
     (case raf_queue s of [] \<Rightarrow> s | c # q \<Rightarrow> detectFace c (s\<lparr>raf_queue := q\<rparr>))"
| "step (DetectResolved r) s =
     (case in_flight s of [] \<Rightarrow> s | c # q \<Rightarrow> detectFace_resume c r (s\<lparr>in_flight := q\<rparr>))"
| "step DetectFailed s =
     (case in_flight s of [] \<Rightarrow> s | c # q \<Rightarrow> reject (s\<lparr>in_flight := q\<rparr>))"
| "step Tick s =
     fold (\<lambda>h s'. if h \<in> set (active_intervals s') then interval_callback s' else s')
          (active_intervals s) s"
| "step Unmount s = (if mounted s then (timer_cleanup s)\<lparr>mounted := False\<rparr> else s)"

definition run :: "event list \<Rightarrow> component \<Rightarrow> component" where
  "run evs s = fold step evs s"

text \<open>
  The state after mounting: the \<open>useState\<close> initial values, the bootstrap started by the
  first effect, and the first run of the timer effect.
\<close>

definition init :: component where
  "init = timer_effect
     \<lparr>mounted = True, timer = 30 * 60, timerRunning = False, faceLandmarker = None,
      isStarted = False, interval = None, next_id = 1, active_intervals = [], clear_log = [],
      loader_pending = True, stream_pending = False, video_src = False, video_loaded = False,
      listeners = [], raf_queue = [], in_flight = [], canvas = [], rejections = 0\<rparr>"

text \<open>One second of a running session: a frame, its detection result, the timer period.\<close>

definition second :: "landmark list list \<Rightarrow> event list" where
  "second outcome = [AnimationFrame, DetectResolved outcome, Tick]"

subsection \<open>Invariants of the reachable states\<close>

text \<open>
  While the component is mounted, the browser holds exactly the interval named by the
  effect's variable, and that variable is set exactly when \<open>timerRunning\<close> holds; after
  unmount no interval is left. Every recorded \<open>clearInterval\<close> came from the cleanup.
\<close>

definition timer_inv :: "component \<Rightarrow> bool" where
  "timer_inv s =
     (active_intervals s = (if mounted s then (case interval s of Some h \<Rightarrow> [h] | None \<Rightarrow> []) else [])
      \<and> (mounted s \<longrightarrow> (interval s \<noteq> None) = timerRunning s)
      \<and> list_all (\<lambda>e. fst e = Cleanup) (clear_log s))"

text \<open>
  The frame loop is a single chain: one \<open>loadeddata\<close> listener at most, and once the
  video has loaded at most one closure that is either waiting for an animation frame or
  suspended at its \<open>await\<close>. Only closures that hold a detector get that far, and every
  closure of the chain is the one that was registered as listener.
\<close>

definition frame_inv :: "component \<Rightarrow> bool" where
  "frame_inv s =
     (length (listeners s) \<le> 1
      \<and> (\<not> isStarted s \<longrightarrow> listeners s = [] \<and> \<not> stream_pending s \<and> \<not> video_src s)
      \<and> (video_loaded s \<longrightarrow> video_src s)
      \<and> (if video_loaded s then length (raf_queue s) + length (in_flight s) \<le> 1
          else raf_queue s = [] \<and> in_flight s = [])
      \<and> None \<notin> set (raf_queue s) \<and> None \<notin> set (in_flight s)
      \<and> set (raf_queue s) \<union> set (in_flight s) \<subseteq> set (listeners s)
      \<and> (faceLandmarker s = None \<longrightarrow> set (listeners s) \<subseteq> {None}))"

text \<open>A detection outcome counts as a face when \<open>results.faceLandmarks.length > 0\<close>.\<close>

definition face_present :: "landmark list list \<Rightarrow> bool" where
  "face_present faceLandmarks = (0 < length faceLandmarks)"

text \<open>The frame loop between two frames: canvas rendered, one closure with a detector queued.\<close>

definition frame_loop_running :: "component \<Rightarrow> bool" where
  "frame_loop_running s =
     (canvasRef s \<and> raf_queue s = [Some FaceLandmarker] \<and> in_flight s = [])"

text \<open>
  No detection has run and none can: every registered closure holds \<open>null\<close>, nothing is
  queued or outstanding, the canvas is untouched and the countdown has not moved.
\<close>

definition idle :: "component \<Rightarrow> bool" where
  "idle s =
     (set (listeners s) \<subseteq> {None} \<and> raf_queue s = [] \<and> in_flight s = []
      \<and> canvas s = [] \<and> \<not> timerRunning s \<and> timer s = 30 * 60 \<and> active_intervals s = [])"

text \<open>The events that bring a fresh component to a running session with a face in view.\<close>

definition start_session :: "event list" where
  "start_session =
     [DetectorLoaded, ClickStart, StreamGranted, LoadedData,
      DetectResolved [[NormalizedLandmark (1 / 2) (1 / 2)]]]"


section \<open>Properties of the time readout\<close>

lemma digit_char_is_digit: "n < 10 \<Longrightarrow> is_digit (digit_char n)"
  unfolding is_digit_def digit_char_def by (rule nth_mem) simp

lemma digits_all_digits: "list_all is_digit (digits n)"
proof (induction n rule: digits.induct)
  case (1 n)
  show ?case
  proof (cases "n < 10")
    case True
    then show ?thesis by (simp add: digits.simps [of n] digit_char_is_digit)
  next
    case False
    with "1" show ?thesis by (simp add: digits.simps [of n] digit_char_is_digit)
  qed
qed

lemma digits_nonempty: "digits n \<noteq> []"
  by (simp add: digits.simps [of n])

lemma digits_small: "n < 10 \<Longrightarrow> digits n = [digit_char n]"
  by (simp add: digits.simps [of n])

lemma digits_two: "10 \<le> n \<Longrightarrow> n < 100 \<Longrightarrow> digits n = [digit_char (n div 10), digit_char (n mod 10)]"
  by (simp add: digits.simps [of n] digits_small)

lemma padStart_digits: "m < 60 \<Longrightarrow> padStart 2 (CHR ''0'') (digits m) = pad2 m"
proof (cases "m < 10")
  case True
  then show ?thesis by (simp add: padStart_def pad2_def digits_small digit_char_def)
next
  case False
  assume "m < 60"
  with False show ?thesis by (simp add: padStart_def pad2_def digits_two)
qed

lemma js_rem_nonneg: "0 \<le> a \<Longrightarrow> js_rem a 60 = a mod 60"
  by (cases "a = 0") (simp_all add: js_rem_def)

lemma display_nonneg: "0 \<le> s \<Longrightarrow> display s = spec_display s"
proof -
  assume s: "0 \<le> s"
  have m: "nat (s mod 60) = nat s mod 60" using s by (simp add: nat_mod_distrib)
  have d: "nat (s div 60) = nat s div 60" using s by (simp add: nat_div_distrib)
  have lt: "nat s mod 60 < 60" by simp
  have "toString (js_rem s 60) = digits (nat s mod 60)"
    using s by (simp add: js_rem_nonneg toString_def m)
  moreover have "toString (Math_floor_div s 60) = digits (nat s div 60)"
    using s by (simp add: toString_def Math_floor_div_def d div_int_pos_iff)
  ultimately show ?thesis
    by (simp add: display_def spec_display_def padStart_digits [OF lt])
qed

text \<open>
  C8: for every remaining time \<open>s \<ge> 0\<close> the readout is the minutes \<open>floor(s/60)\<close>, a
  colon, and \<open>s mod 60\<close> zero-padded to two digits; 1800 shows as \<open>30:00\<close>, 59 as
  \<open>0:59\<close> and 0 as \<open>0:00\<close>.
\<close>

theorem display_format: "(0 \<le> s \<longrightarrow> display s = spec_display s)
  \<and> display 1800 = ''30:00'' \<and> display 59 = ''0:59'' \<and> display 0 = ''0:00''"
proof -
  have "display 1800 = ''30:00''" by code_simp
  moreover have "display 59 = ''0:59''" by code_simp
  moreover have "display 0 = ''0:00''" by code_simp
  ultimately show ?thesis using display_nonneg by simp
qed

theorem display_format_witness:
  "(0::int) \<le> 754 \<and> display 754 = spec_display 754 \<and> display 754 = ''12:34''"
proof -
  have "display 754 = ''12:34''" by code_simp
  then show ?thesis using display_format [of 754] by simp
qed

lemma colon_not_digit: "\<not> is_digit (CHR '':'')" by (simp add: is_digit_def)
lemma minus_not_digit: "\<not> is_digit (CHR ''-'')" by (simp add: is_digit_def)

lemma no_colon_digits: "CHR '':'' \<notin> set (digits n)"
  using digits_all_digits [of n] colon_not_digit by (auto simp: list_all_iff)

lemma no_colon_toString: "CHR '':'' \<notin> set (toString i)"
  by (simp add: toString_def no_colon_digits)

lemma minutes_field_append: "CHR '':'' \<notin> set a \<Longrightarrow> minutes_field (a @ CHR '':'' # b) = a"
  by (induction a) (auto simp: minutes_field_def)

lemma seconds_field_append: "CHR '':'' \<notin> set a \<Longrightarrow> seconds_field (a @ CHR '':'' # b) = b"
proof -
  assume "CHR '':'' \<notin> set a"
  then have "dropWhile (\<lambda>c. c \<noteq> CHR '':'') (a @ CHR '':'' # b) = CHR '':'' # b"
    by (simp add: dropWhile_append3 dropWhile_append)
  then show ?thesis by (simp add: seconds_field_def)
qed

lemma seconds_field_display: "seconds_field (display s) = padStart 2 (CHR ''0'') (toString (js_rem s 60))"
  by (simp add: display_def seconds_field_append no_colon_toString)

lemma minutes_field_display: "minutes_field (display s) = toString (Math_floor_div s 60)"
  by (simp add: display_def minutes_field_append no_colon_toString)

lemma js_rem_neg: "s < 0 \<Longrightarrow> \<not> 60 dvd s \<Longrightarrow> js_rem s 60 = - (\<bar>s\<bar> mod 60) \<and> 0 < \<bar>s\<bar> mod 60"
proof -
  assume s: "s < 0" and nd: "\<not> 60 dvd s"
  have "\<not> 60 dvd \<bar>s\<bar>" using nd by simp
  then have "\<bar>s\<bar> mod 60 \<noteq> 0" by (simp add: dvd_eq_mod_eq_0)
  moreover have "0 \<le> \<bar>s\<bar> mod 60" by simp
  ultimately have "0 < \<bar>s\<bar> mod 60" by linarith
  then show ?thesis using s by (simp add: js_rem_def)
qed

lemma js_rem_dvd: "60 dvd s \<Longrightarrow> js_rem s 60 = 0"
  by (simp add: js_rem_def)

lemma seconds_field_negative:
  assumes "s < 0" "\<not> 60 dvd s"
  shows "seconds_field (display s) = CHR ''-'' # digits (nat (\<bar>s\<bar> mod 60))"
proof -
  from js_rem_neg [OF assms]
  have "toString (js_rem s 60) = CHR ''-'' # digits (nat (\<bar>s\<bar> mod 60))"
    by (simp add: toString_def)
  moreover have "2 \<le> length (CHR ''-'' # digits (nat (\<bar>s\<bar> mod 60)))"
    using digits_nonempty [of "nat (\<bar>s\<bar> mod 60)"] by (cases "digits (nat (\<bar>s\<bar> mod 60))") simp_all
  ultimately show ?thesis
    by (simp add: seconds_field_display padStart_def)
qed

lemma display_negative_hd: "s < 0 \<Longrightarrow> hd (display s) = CHR ''-''"
proof -
  assume "s < 0"
  then have "s div 60 < 0" by (simp add: div_neg_pos_less0)
  then show ?thesis by (simp add: display_def toString_def Math_floor_div_def)
qed

text \<open>
  C9, amended: for every \<open>s < 0\<close> that is not a multiple of 60 the readout is not of the
  form \<open>M:SS\<close> with a two-digit zero-padded seconds field, because the seconds field is
  the signed remainder and starts with a minus sign; for a negative multiple of 60 the
  seconds field is \<open>00\<close>. For every \<open>s < 0\<close> the minutes field is negative. \<open>-1\<close>
  shows as \<open>-1:-1\<close> and \<open>-61\<close> as \<open>-2:-1\<close>.
\<close>

theorem display_negative:
  "(s < 0 \<and> \<not> 60 dvd s \<longrightarrow>
      \<not> M_SS_form (display s) \<and> hd (seconds_field (display s)) = CHR ''-'')
   \<and> (s < 0 \<and> 60 dvd s \<longrightarrow> seconds_field (display s) = ''00'')
   \<and> (s < 0 \<longrightarrow> hd (display s) = CHR ''-'')
   \<and> display (- 1) = ''-1:-1'' \<and> display (- 61) = ''-2:-1''"
proof -
  have a: "\<not> M_SS_form (display s) \<and> hd (seconds_field (display s)) = CHR ''-''"
    if "s < 0" "\<not> 60 dvd s"
    using seconds_field_negative [OF that] minus_not_digit
    by (simp add: M_SS_form_def two_digits_def)
  have b: "seconds_field (display s) = ''00''" if "60 dvd s"
    using that by (simp add: seconds_field_display js_rem_dvd toString_def digits_small padStart_def digit_char_def)
  have c: "display (- 1) = ''-1:-1''" by code_simp
  have d: "display (- 61) = ''-2:-1''" by code_simp
  show ?thesis using a b c d display_negative_hd by blast
qed

theorem display_negative_witness:
  "\<not> M_SS_form (display (- 7)) \<and> seconds_field (display (- 120)) = ''00'' \<and> hd (display (- 7)) = CHR ''-''"
  using display_negative [of "- 7"] display_negative [of "- 120"] by simp

text \<open>
  C9 as stated fails at \<open>s = -60\<close>: the readout is \<open>-1:00\<close>, whose seconds field is two
  zero-padded digits.
\<close>

theorem display_negative_counterexample: "(- 60 :: int) < 0 \<and> M_SS_form (display (- 60))"
  by code_simp


section \<open>The timer effect keeps one interval\<close>

lemmas prim_defs = timer_effect_def timer_cleanup_def rerender_def setTimer_def setTimerRunning_def
  interval_callback_def setInterval_def clearInterval_def detectFace_def detectFace_resume_def
  reject_def canvasRef_def videoRef_def

lemma timer_inv_init: "timer_inv init"
  by (simp add: timer_inv_def init_def prim_defs)

lemma rerender_inv:
  "mounted s \<Longrightarrow> active_intervals s = (case interval s of Some h \<Rightarrow> [h] | None \<Rightarrow> []) \<Longrightarrow>
   list_all (\<lambda>e. fst e = Cleanup) (clear_log s) \<Longrightarrow> timer_inv (rerender s)"
  by (auto simp: timer_inv_def prim_defs split: option.splits)

lemma setTimer_inv:
  assumes "timer_inv s" shows "timer_inv (setTimer f s)"
proof (cases "mounted s \<and> f (timer s) \<noteq> timer s")
  case True
  have "timer_inv (rerender (s\<lparr>timer := f (timer s)\<rparr>))"
    by (rule rerender_inv) (use assms True in \<open>simp_all add: timer_inv_def\<close>)
  with True show ?thesis by (simp add: setTimer_def)
next
  case False
  with assms show ?thesis by (auto simp: setTimer_def)
qed

lemma setTimerRunning_inv:
  assumes "timer_inv s" shows "timer_inv (setTimerRunning b s)"
proof (cases "mounted s \<and> b \<noteq> timerRunning s")
  case True
  have "timer_inv (rerender (s\<lparr>timerRunning := b\<rparr>))"
    by (rule rerender_inv) (use assms True in \<open>simp_all add: timer_inv_def\<close>)
  with True show ?thesis by (simp add: setTimerRunning_def)
next
  case False
  with assms show ?thesis by (auto simp: setTimerRunning_def)
qed

lemma timer_inv_frame:
  "timer_inv (s\<lparr>in_flight := a\<rparr>) = timer_inv s"
  "timer_inv (s\<lparr>raf_queue := b\<rparr>) = timer_inv s"
  "timer_inv (s\<lparr>canvas := c\<rparr>) = timer_inv s"
  "timer_inv (s\<lparr>rejections := d\<rparr>) = timer_inv s"
  "timer_inv (s\<lparr>video_loaded := e\<rparr>) = timer_inv s"
  by (simp_all add: timer_inv_def)

lemma detectFace_inv: "timer_inv s \<Longrightarrow> timer_inv (detectFace c s)"
  by (simp add: detectFace_def reject_def timer_inv_frame split: option.splits)

lemma fold_detectFace_inv: "timer_inv s \<Longrightarrow> timer_inv (fold detectFace cs s)"
  by (induction cs arbitrary: s) (simp_all add: detectFace_inv)

lemma detectFace_resume_inv: "timer_inv s \<Longrightarrow> timer_inv (detectFace_resume c r s)"
  by (simp add: detectFace_resume_def reject_def timer_inv_frame setTimerRunning_inv Let_def
        split: list.splits)

lemma tick_inv:
  assumes "timer_inv s" shows "timer_inv (step Tick s)"
proof (cases "active_intervals s")
  case Nil
  with assms show ?thesis by simp
next
  case (Cons h hs)
  with assms have "hs = []" by (auto simp: timer_inv_def split: if_splits option.splits)
  with Cons assms show ?thesis by (simp add: interval_callback_def setTimer_inv)
qed

lemma unmount_inv: "timer_inv s \<Longrightarrow> timer_inv (step Unmount s)"
  by (auto simp: timer_inv_def timer_cleanup_def clearInterval_def split: option.splits)

lemma timer_inv_step: "timer_inv s \<Longrightarrow> timer_inv (step e s)"
proof (cases e)
  case DetectorLoaded
  assume "timer_inv s"
  then show ?thesis using DetectorLoaded by (simp add: timer_inv_def)
next
  case DetectorFailed
  assume "timer_inv s"
  then show ?thesis using DetectorFailed by (simp add: timer_inv_def reject_def)
next
  case ClickStart
  assume "timer_inv s"
  then show ?thesis using ClickStart by (simp add: timer_inv_def)
next
  case StreamDenied
  assume "timer_inv s"
  then show ?thesis using StreamDenied by (simp add: timer_inv_def reject_def)
next
  case DetectFailed
  assume "timer_inv s"
  then show ?thesis using DetectFailed
    by (simp add: timer_inv_frame reject_def split: list.splits)
next
  case StreamGranted
  assume "timer_inv s"
  then show ?thesis using StreamGranted by (simp add: timer_inv_def reject_def)
next
  case LoadedData
  assume "timer_inv s"
  then show ?thesis using LoadedData by (simp add: fold_detectFace_inv timer_inv_frame)
next
  case AnimationFrame
  assume "timer_inv s"
  then show ?thesis using AnimationFrame
    by (simp add: detectFace_inv timer_inv_frame split: list.splits)
next
  case (DetectResolved r)
  assume "timer_inv s"
  then show ?thesis using DetectResolved
    by (simp add: detectFace_resume_inv timer_inv_frame split: list.splits)
next
  case Tick
  assume "timer_inv s"
  then show ?thesis using Tick tick_inv by simp
next
  case Unmount
  assume "timer_inv s"
  then show ?thesis using Unmount unmount_inv by simp
qed

lemma timer_inv_run: "timer_inv s \<Longrightarrow> timer_inv (run evs s)"
  unfolding run_def by (induction evs arbitrary: s) (simp_all add: timer_inv_step)

lemma timer_inv_reachable: "timer_inv (run evs init)"
  by (rule timer_inv_run [OF timer_inv_init])


section \<open>What each callback leaves alone\<close>

lemma run_Nil: "run [] s = s" by (simp add: run_def)
lemma run_Cons: "run (e # evs) s = run evs (step e s)" by (simp add: run_def)
lemma run_append: "run (xs @ ys) s = run ys (run xs s)" by (simp add: run_def)

lemma rerender_fields:
  "mounted (rerender s) = mounted s"
  "timer (rerender s) = timer s"
  "timerRunning (rerender s) = timerRunning s"
  "faceLandmarker (rerender s) = faceLandmarker s"
  "isStarted (rerender s) = isStarted s"
  "loader_pending (rerender s) = loader_pending s"
  "stream_pending (rerender s) = stream_pending s"
  "video_src (rerender s) = video_src s"
  "video_loaded (rerender s) = video_loaded s"
  "listeners (rerender s) = listeners s"
  "raf_queue (rerender s) = raf_queue s"
  "in_flight (rerender s) = in_flight s"
  "canvas (rerender s) = canvas s"
  "rejections (rerender s) = rejections s"
  by (simp_all add: rerender_def timer_effect_def timer_cleanup_def setInterval_def clearInterval_def
        split: option.splits)

lemma setTimer_fields:
  "mounted (setTimer f s) = mounted s"
  "timerRunning (setTimer f s) = timerRunning s"
  "faceLandmarker (setTimer f s) = faceLandmarker s"
  "isStarted (setTimer f s) = isStarted s"
  "loader_pending (setTimer f s) = loader_pending s"
  "stream_pending (setTimer f s) = stream_pending s"
  "video_src (setTimer f s) = video_src s"
  "video_loaded (setTimer f s) = video_loaded s"
  "listeners (setTimer f s) = listeners s"
  "raf_queue (setTimer f s) = raf_queue s"
  "in_flight (setTimer f s) = in_flight s"
  "canvas (setTimer f s) = canvas s"
  "rejections (setTimer f s) = rejections s"
  by (simp_all add: setTimer_def rerender_fields)

lemma setTimer_timer: "timer (setTimer f s) = (if mounted s then f (timer s) else timer s)"
  by (simp add: setTimer_def rerender_fields)

lemma setTimerRunning_fields:
  "mounted (setTimerRunning b s) = mounted s"
  "timer (setTimerRunning b s) = timer s"
  "faceLandmarker (setTimerRunning b s) = faceLandmarker s"
  "isStarted (setTimerRunning b s) = isStarted s"
  "loader_pending (setTimerRunning b s) = loader_pending s"
  "stream_pending (setTimerRunning b s) = stream_pending s"
  "video_src (setTimerRunning b s) = video_src s"
  "video_loaded (setTimerRunning b s) = video_loaded s"
  "listeners (setTimerRunning b s) = listeners s"
  "raf_queue (setTimerRunning b s) = raf_queue s"
  "in_flight (setTimerRunning b s) = in_flight s"
  "canvas (setTimerRunning b s) = canvas s"
  "rejections (setTimerRunning b s) = rejections s"
  by (simp_all add: setTimerRunning_def rerender_fields)

lemma setTimerRunning_value:
  "timerRunning (setTimerRunning b s) = (if mounted s then b else timerRunning s)"
  by (auto simp: setTimerRunning_def rerender_fields)

lemma detectFace_fields:
  "mounted (detectFace c s) = mounted s"
  "timer (detectFace c s) = timer s"
  "timerRunning (detectFace c s) = timerRunning s"
  "faceLandmarker (detectFace c s) = faceLandmarker s"
  "isStarted (detectFace c s) = isStarted s"
  "interval (detectFace c s) = interval s"
  "active_intervals (detectFace c s) = active_intervals s"
  "clear_log (detectFace c s) = clear_log s"
  "stream_pending (detectFace c s) = stream_pending s"
  "video_src (detectFace c s) = video_src s"
  "video_loaded (detectFace c s) = video_loaded s"
  "listeners (detectFace c s) = listeners s"
  "raf_queue (detectFace c s) = raf_queue s"
  "canvas (detectFace c s) = canvas s"
  by (simp_all add: detectFace_def reject_def split: option.splits)

lemma detectFace_in_flight:
  "in_flight (detectFace c s) = (if c \<noteq> None \<and> canvasRef s then in_flight s @ [c] else in_flight s)"
  by (simp add: detectFace_def reject_def split: option.splits)

lemma canvasRef_detectFace: "canvasRef (detectFace c s) = canvasRef s"
  by (simp add: canvasRef_def detectFace_fields)

lemma fold_detectFace_fields:
  "mounted (fold detectFace cs s) = mounted s"
  "timer (fold detectFace cs s) = timer s"
  "timerRunning (fold detectFace cs s) = timerRunning s"
  "faceLandmarker (fold detectFace cs s) = faceLandmarker s"
  "isStarted (fold detectFace cs s) = isStarted s"
  "interval (fold detectFace cs s) = interval s"
  "active_intervals (fold detectFace cs s) = active_intervals s"
  "clear_log (fold detectFace cs s) = clear_log s"
  "stream_pending (fold detectFace cs s) = stream_pending s"
  "video_src (fold detectFace cs s) = video_src s"
  "video_loaded (fold detectFace cs s) = video_loaded s"
  "listeners (fold detectFace cs s) = listeners s"
  "raf_queue (fold detectFace cs s) = raf_queue s"
  "canvas (fold detectFace cs s) = canvas s"
  by (induction cs arbitrary: s; simp add: detectFace_fields)+

lemma detectFace_resume_fields:
  "mounted (detectFace_resume c r s) = mounted s"
  "timer (detectFace_resume c r s) = timer s"
  "faceLandmarker (detectFace_resume c r s) = faceLandmarker s"
  "isStarted (detectFace_resume c r s) = isStarted s"
  "stream_pending (detectFace_resume c r s) = stream_pending s"
  "video_src (detectFace_resume c r s) = video_src s"
  "video_loaded (detectFace_resume c r s) = video_loaded s"
  "listeners (detectFace_resume c r s) = listeners s"
  "in_flight (detectFace_resume c r s) = in_flight s"
  by (simp_all add: detectFace_resume_def reject_def Let_def setTimerRunning_fields split: list.splits)

lemma detectFace_resume_raf:
  "raf_queue (detectFace_resume c r s) = (if canvasRef s then raf_queue s @ [c] else raf_queue s)"
  by (simp add: detectFace_resume_def reject_def Let_def setTimerRunning_fields split: list.splits)

lemma detectFace_resume_timerRunning:
  "timerRunning (detectFace_resume c r s) = (if canvasRef s then face_present r else timerRunning s)"
  by (simp add: detectFace_resume_def reject_def Let_def setTimerRunning_value canvasRef_def
        face_present_def split: list.splits)

lemma detectFace_resume_unmounted:
  "\<not> canvasRef s \<Longrightarrow> detectFace_resume c r s = reject s"
  by (simp add: detectFace_resume_def)


section \<open>The countdown\<close>

lemma tick_timer:
  assumes "timer_inv s" "mounted s"
  shows "timer (step Tick s) = (if timerRunning s then timer s - 1 else timer s)"
proof (cases "timerRunning s")
  case True
  with assms obtain h where "active_intervals s = [h]"
    by (auto simp: timer_inv_def split: option.splits)
  with True assms show ?thesis by (simp add: interval_callback_def setTimer_timer)
next
  case False
  with assms have "active_intervals s = []"
    by (auto simp: timer_inv_def split: option.splits)
  with False show ?thesis by simp
qed

lemma tick_fields:
  assumes "timer_inv s"
  shows "mounted (step Tick s) = mounted s" "timerRunning (step Tick s) = timerRunning s"
    "isStarted (step Tick s) = isStarted s" "raf_queue (step Tick s) = raf_queue s"
    "in_flight (step Tick s) = in_flight s" "canvas (step Tick s) = canvas s"
    "listeners (step Tick s) = listeners s" "faceLandmarker (step Tick s) = faceLandmarker s"
    "video_src (step Tick s) = video_src s" "video_loaded (step Tick s) = video_loaded s"
    "stream_pending (step Tick s) = stream_pending s"
proof -
  from assms have "active_intervals s = [] \<or> (\<exists>h. active_intervals s = [h])"
    by (auto simp: timer_inv_def split: option.splits)
  then show "mounted (step Tick s) = mounted s" "timerRunning (step Tick s) = timerRunning s"
    "isStarted (step Tick s) = isStarted s" "raf_queue (step Tick s) = raf_queue s"
    "in_flight (step Tick s) = in_flight s" "canvas (step Tick s) = canvas s"
    "listeners (step Tick s) = listeners s" "faceLandmarker (step Tick s) = faceLandmarker s"
    "video_src (step Tick s) = video_src s" "video_loaded (step Tick s) = video_loaded s"
    "stream_pending (step Tick s) = stream_pending s"
    by (auto simp: interval_callback_def setTimer_fields)
qed

lemma tick_unmounted:
  assumes "timer_inv s" "\<not> mounted s"
  shows "timer (step Tick s) = timer s"
  using assms by (simp add: timer_inv_def)

lemma second_step:
  assumes inv: "timer_inv s" and live: "frame_loop_running s"
  shows "timer_inv (run (second r) s) \<and> frame_loop_running (run (second r) s)
    \<and> timer (run (second r) s) = timer s - (if face_present r then 1 else 0)"
proof -
  define s1 where "s1 = step AnimationFrame s"
  define s2 where "s2 = step (DetectResolved r) s1"
  have c: "canvasRef s" and q: "raf_queue s = [Some FaceLandmarker]" and f: "in_flight s = []"
    using live by (simp_all add: frame_loop_running_def)
  have s1: "canvasRef s1" "raf_queue s1 = []" "in_flight s1 = [Some FaceLandmarker]"
    "timer s1 = timer s" "timer_inv s1"
    using c q f inv timer_inv_step [OF inv, of AnimationFrame]
    by (simp_all add: s1_def detectFace_fields detectFace_in_flight canvasRef_def)
  have i2: "timer_inv s2" unfolding s2_def by (rule timer_inv_step [OF s1(5)])
  have s2: "canvasRef s2" "raf_queue s2 = [Some FaceLandmarker]" "in_flight s2 = []"
    "timer s2 = timer s" "timerRunning s2 = face_present r"
    using s1
    by (simp_all add: s2_def detectFace_resume_fields detectFace_resume_raf
          detectFace_resume_timerRunning canvasRef_def)
  have m2: "mounted s2" using s2(1) by (simp add: canvasRef_def)
  have r: "run (second r) s = step Tick s2"
    by (simp add: second_def run_Cons run_Nil s1_def s2_def)
  have "timer (step Tick s2) = timer s - (if face_present r then 1 else 0)"
    using tick_timer [OF i2 m2] s2 by (simp del: step.simps)
  moreover have "frame_loop_running (step Tick s2)"
    using s2 by (simp add: frame_loop_running_def canvasRef_def tick_fields [OF i2] del: step.simps)
  moreover have "timer_inv (step Tick s2)" by (rule timer_inv_step [OF i2])
  ultimately show ?thesis by (simp add: r)
qed

lemma seconds_run:
  assumes "timer_inv s" "frame_loop_running s"
  shows "timer_inv (run (concat (map second rs)) s) \<and> frame_loop_running (run (concat (map second rs)) s)
    \<and> timer (run (concat (map second rs)) s) = timer s - int (length (filter face_present rs))"
  using assms
proof (induction rs arbitrary: s)
  case Nil
  then show ?case by (simp add: run_Nil)
next
  case (Cons r rs)
  from second_step [OF Cons.prems, of r]
  have a: "timer_inv (run (second r) s)" "frame_loop_running (run (second r) s)"
    "timer (run (second r) s) = timer s - (if face_present r then 1 else 0)" by simp_all
  from Cons.IH [OF a(1) a(2)] a(3) show ?case by (simp add: run_append)
qed

text \<open>
  C1: a one-second tick lowers \<open>timer\<close> by exactly 1 while \<open>timerRunning\<close> holds and
  leaves it unchanged while it does not; over four seconds with the detection outcomes
  present, present, absent, present the timer goes down by exactly 3.
\<close>

theorem countdown_follows_detection:
  "(mounted (run evs init) \<longrightarrow>
      timer (step Tick (run evs init)) =
        (if timerRunning (run evs init) then timer (run evs init) - 1 else timer (run evs init)))
   \<and> (frame_loop_running (run evs init) \<and> face_present r1 \<and> face_present r2 \<and> face_present r4 \<longrightarrow>
      timer (run (second r1 @ second r2 @ second [] @ second r4) (run evs init))
        = timer (run evs init) - 3)"
proof -
  have inv: "timer_inv (run evs init)" by (rule timer_inv_reachable)
  have a: "timer (run (second r1 @ second r2 @ second [] @ second r4) (run evs init))
        = timer (run evs init) - 3"
    if "frame_loop_running (run evs init)" "face_present r1" "face_present r2" "face_present r4"
    using seconds_run [OF inv that(1), of "[r1, r2, [], r4]"] that
    by (simp add: face_present_def)
  show ?thesis using tick_timer [OF inv] a by (simp del: step.simps)
qed

lemma start_session_state:
  "mounted (run start_session init)" "timerRunning (run start_session init)"
  "timer (run start_session init) = 1800" "frame_loop_running (run start_session init)"
  by (simp_all add: start_session_def run_def init_def timer_effect_def detectFace_def
        detectFace_resume_def canvasRef_def videoRef_def setTimerRunning_def rerender_def
        timer_cleanup_def setInterval_def frame_loop_running_def)

theorem countdown_follows_detection_witness:
  "mounted (run start_session init)
   \<and> timer (step Tick (run start_session init)) = 1799
   \<and> frame_loop_running (run start_session init)
   \<and> face_present [[NormalizedLandmark 0 0]]
   \<and> timer (run (second [[NormalizedLandmark 0 0]] @ second [[NormalizedLandmark 0 0]] @ second []
         @ second [[NormalizedLandmark 0 0]]) (run start_session init)) = 1797"
  using countdown_follows_detection [of start_session "[[NormalizedLandmark 0 0]]"
      "[[NormalizedLandmark 0 0]]" "[[NormalizedLandmark 0 0]]"] start_session_state
  by (simp add: face_present_def del: step.simps)

lemma ticks_running:
  assumes "timer_inv s" "mounted s" "timerRunning s"
  shows "timer (run (replicate n Tick) s) = timer s - int n"
  using assms
proof (induction n arbitrary: s)
  case 0
  then show ?case by (simp add: run_Nil)
next
  case (Suc n)
  have a: "timer_inv (step Tick s)" by (rule timer_inv_step [OF Suc.prems(1)])
  have b: "mounted (step Tick s)" "timerRunning (step Tick s)"
    using Suc.prems by (simp_all add: tick_fields [OF Suc.prems(1)] del: step.simps)
  have c: "timer (step Tick s) = timer s - 1"
    using tick_timer [OF Suc.prems(1) Suc.prems(2)] Suc.prems(3) by (simp del: step.simps)
  show ?case using Suc.IH [OF a b] c by (simp add: run_Cons del: step.simps)
qed

text \<open>
  C2 as stated fails: with a face in view, the 1801st tick takes the timer from 0 to -1.
\<close>

theorem countdown_unclamped_counterexample:
  "timer (run (start_session @ replicate 1801 Tick) init) < 0"
proof -
  have "timer (run (replicate 1801 Tick) (run start_session init)) = 1800 - int 1801"
    using ticks_running [OF timer_inv_reachable start_session_state(1) start_session_state(2), of 1801]
      start_session_state(3) by simp
  then show ?thesis by (simp add: run_append)
qed

lemma step_timer_bounds:
  assumes "timer_inv s"
  shows "timer s - (if e = Tick then 1 else 0) \<le> timer (step e s) \<and> timer (step e s) \<le> timer s"
proof (cases e)
  case Tick
  show ?thesis
  proof (cases "mounted s")
    case True
    then show ?thesis using tick_timer [OF assms True] Tick by (simp del: step.simps)
  next
    case False
    then show ?thesis using tick_unmounted [OF assms False] Tick by (simp del: step.simps)
  qed
next
  case Unmount
  then show ?thesis by (simp add: timer_cleanup_def clearInterval_def split: option.splits)
next
  case LoadedData
  then show ?thesis by (simp add: fold_detectFace_fields)
next
  case AnimationFrame
  then show ?thesis by (simp add: detectFace_fields split: list.splits)
next
  case (DetectResolved r)
  then show ?thesis by (simp add: detectFace_resume_fields split: list.splits)
qed (simp_all add: reject_def split: list.splits)

lemma run_timer_bounds:
  assumes "timer_inv s"
  shows "timer s - int (length (filter (\<lambda>e. e = Tick) evs)) \<le> timer (run evs s)
     \<and> timer (run evs s) \<le> timer s"
  using assms
proof (induction evs arbitrary: s)
  case Nil
  then show ?case by (simp add: run_Nil)
next
  case (Cons e evs)
  from Cons.IH [OF timer_inv_step [OF Cons.prems], of e] step_timer_bounds [OF Cons.prems, of e]
  show ?case by (auto simp: run_Cons simp del: step.simps)
qed

lemma init_timer: "timer init = 1800"
  by (simp add: init_def timer_effect_def)

text \<open>
  C2, amended: the countdown is not clamped at zero. From every reachable state of the
  mounted component in which \<open>timerRunning\<close> holds, \<open>n\<close> consecutive one-second ticks
  lower \<open>timer\<close> by exactly \<open>n\<close>, for every \<open>n\<close>, also past zero; from the start of a
  session with a face in view, \<open>n\<close> ticks leave \<open>1800 - n\<close>, which is negative for
  \<open>n > 1800\<close>. After any sequence of events the timer is at most 1800 and at least 1800
  minus the number of ticks in the sequence.
\<close>

theorem countdown_unclamped:
  "(mounted (run evs init) \<and> timerRunning (run evs init) \<longrightarrow>
      timer (run (replicate n Tick) (run evs init)) = timer (run evs init) - int n)
   \<and> timer (run (start_session @ replicate n Tick) init) = 1800 - int n
   \<and> 1800 - int (length (filter (\<lambda>e. e = Tick) evs)) \<le> timer (run evs init)
   \<and> timer (run evs init) \<le> 1800"
proof -
  have a: "timer (run (replicate n Tick) (run evs init)) = timer (run evs init) - int n"
    if "mounted (run evs init)" "timerRunning (run evs init)"
    by (rule ticks_running [OF timer_inv_reachable that])
  have b: "timer (run (start_session @ replicate n Tick) init) = 1800 - int n"
    using ticks_running [OF timer_inv_reachable start_session_state(1) start_session_state(2), of n]
      start_session_state(3) by (simp add: run_append)
  have c: "1800 - int (length (filter (\<lambda>e. e = Tick) evs)) \<le> timer (run evs init)
      \<and> timer (run evs init) \<le> 1800"
    using run_timer_bounds [OF timer_inv_init, of evs] by (simp add: init_timer)
  show ?thesis using a b c by simp
qed

theorem countdown_unclamped_witness:
  "mounted (run start_session init) \<and> timerRunning (run start_session init)
   \<and> timer (run (replicate 1801 Tick) (run start_session init)) = - 1
   \<and> timer (run (start_session @ replicate 1800 Tick) init) = 0"
  using countdown_unclamped [of start_session 1801] countdown_unclamped [of "[]" 1800]
    start_session_state
  by simp

text \<open>
  C10: the body of the timer effect never calls \<open>clearInterval\<close>, whatever \<open>timerRunning\<close>
  and \<open>timer\<close> are: in the paused branch the variable \<open>interval\<close> is still \<open>null\<close>. The
  cleanup function cancels the interval the variable names, and in every run of the
  component all cancellations come from the cleanup.
\<close>

theorem paused_branch_never_clears:
  "clear_log (timer_effect s) = clear_log s
   \<and> clear_log (timer_cleanup s) =
       (case interval s of Some h \<Rightarrow> clear_log s @ [(Cleanup, h)] | None \<Rightarrow> clear_log s)
   \<and> interval (timer_effect s) = (if timerRunning s then Some (next_id s) else None)
   \<and> PausedBranch \<notin> fst ` set (clear_log (run evs init))"
proof -
  have "list_all (\<lambda>e. fst e = Cleanup) (clear_log (run evs init))"
    using timer_inv_reachable [of evs] by (simp add: timer_inv_def)
  then have "PausedBranch \<notin> fst ` set (clear_log (run evs init))"
    by (auto simp: list_all_iff)
  then show ?thesis
    by (simp add: timer_effect_def timer_cleanup_def clearInterval_def setInterval_def
          split: option.splits)
qed


section \<open>Teardown\<close>

lemma gone_detectFace:
  "\<not> mounted s \<Longrightarrow> detectFace c s = (case c of None \<Rightarrow> s | Some d \<Rightarrow> reject s)"
  by (simp add: detectFace_def canvasRef_def split: option.splits)

lemma gone_fold_detectFace:
  "\<not> mounted s \<Longrightarrow>
   mounted (fold detectFace cs s) = mounted s \<and> active_intervals (fold detectFace cs s) = active_intervals s
   \<and> timer (fold detectFace cs s) = timer s \<and> timerRunning (fold detectFace cs s) = timerRunning s
   \<and> canvas (fold detectFace cs s) = canvas s \<and> raf_queue (fold detectFace cs s) = raf_queue s
   \<and> in_flight (fold detectFace cs s) = in_flight s"
  by (induction cs arbitrary: s) (simp_all add: gone_detectFace reject_def split: option.splits)

lemma gone_step:
  assumes "\<not> mounted s" "active_intervals s = []"
  shows "\<not> mounted (step e s) \<and> active_intervals (step e s) = []
    \<and> timer (step e s) = timer s \<and> timerRunning (step e s) = timerRunning s
    \<and> canvas (step e s) = canvas s
    \<and> length (raf_queue (step e s)) \<le> length (raf_queue s)
    \<and> length (in_flight (step e s)) \<le> length (in_flight s)"
proof (cases e)
  case LoadedData
  then show ?thesis using assms gone_fold_detectFace [of "s\<lparr>video_loaded := True\<rparr>" "listeners s"]
    by simp
next
  case AnimationFrame
  then show ?thesis using assms
    by (simp add: gone_detectFace reject_def split: list.splits option.splits)
next
  case (DetectResolved r)
  then show ?thesis using assms
    by (simp add: detectFace_resume_def canvasRef_def reject_def split: list.splits)
qed (use assms in \<open>simp_all add: reject_def split: list.splits\<close>)

lemma gone_run:
  assumes "\<not> mounted s" "active_intervals s = []"
  shows "\<not> mounted (run evs s) \<and> active_intervals (run evs s) = []
    \<and> timer (run evs s) = timer s \<and> timerRunning (run evs s) = timerRunning s
    \<and> canvas (run evs s) = canvas s
    \<and> length (raf_queue (run evs s)) \<le> length (raf_queue s)
    \<and> length (in_flight (run evs s)) \<le> length (in_flight s)"
  using assms
proof (induction evs arbitrary: s)
  case Nil
  then show ?case by (simp add: run_Nil)
next
  case (Cons e evs)
  from gone_step [OF Cons.prems, of e]
  have a: "\<not> mounted (step e s)" "active_intervals (step e s) = []"
    and b: "timer (step e s) = timer s" "timerRunning (step e s) = timerRunning s"
      "canvas (step e s) = canvas s"
      "length (raf_queue (step e s)) \<le> length (raf_queue s)"
      "length (in_flight (step e s)) \<le> length (in_flight s)"
    by simp_all
  from Cons.IH [OF a] b show ?case by (simp add: run_Cons del: step.simps)
qed

lemma unmount_gone:
  assumes "timer_inv s"
  shows "\<not> mounted (step Unmount s)" "active_intervals (step Unmount s) = []"
    "timer (step Unmount s) = timer s" "timerRunning (step Unmount s) = timerRunning s"
  using assms
  by (auto simp: timer_inv_def timer_cleanup_def clearInterval_def split: option.splits)

text \<open>
  C6: after teardown, whatever events follow (animation frames, detection results,
  timer periods, late bootstrap or stream callbacks), \<open>timer\<close> and \<open>timerRunning\<close> keep
  the values they had, no interval is registered, the canvas is not drawn on, and the
  frame loop never re-arms or issues a detection: the number of queued frame callbacks
  and of outstanding detections only goes down. The interval is cancelled by the
  effect's cleanup; a frame callback or continuation that runs after teardown fails on
  the \<open>null\<close> canvas reference before it draws, sets state or re-arms.
\<close>

theorem teardown_stops_everything:
  "timer (run evs' (step Unmount (run evs init))) = timer (run evs init)
   \<and> timerRunning (run evs' (step Unmount (run evs init))) = timerRunning (run evs init)
   \<and> active_intervals (run evs' (step Unmount (run evs init))) = []
   \<and> canvas (run evs' (step Unmount (run evs init))) = canvas (step Unmount (run evs init))
   \<and> length (raf_queue (run evs' (step Unmount (run evs init))))
       \<le> length (raf_queue (step Unmount (run evs init)))
   \<and> length (in_flight (run evs' (step Unmount (run evs init))))
       \<le> length (in_flight (step Unmount (run evs init)))"
proof -
  define s where "s = step Unmount (run evs init)"
  have u: "\<not> mounted s" "active_intervals s = []" "timer s = timer (run evs init)"
    "timerRunning s = timerRunning (run evs init)"
    unfolding s_def by (rule unmount_gone [OF timer_inv_reachable])+
  from gone_run [OF u(1) u(2), of evs'] u(3) u(4)
  show ?thesis unfolding s_def by (simp del: step.simps)
qed


section \<open>The frame loop is a single chain\<close>

lemma frame_inv_init: "frame_inv init"
  by (simp add: frame_inv_def init_def timer_effect_def)

lemma frame_inv_timer_fields:
  "frame_inv (setTimer f s) = frame_inv s"
  "frame_inv (setTimerRunning b s) = frame_inv s"
  by (simp_all add: frame_inv_def setTimer_fields setTimerRunning_fields)

lemma frame_inv_tick: "timer_inv s \<Longrightarrow> frame_inv (step Tick s) = frame_inv s"
  by (simp add: frame_inv_def tick_fields del: step.simps)

lemma frame_inv_loaded:
  assumes "frame_inv s" "video_src s" "\<not> video_loaded s"
  shows "frame_inv (step LoadedData s)"
proof -
  from assms have e: "raf_queue s = []" "in_flight s = []" and l: "length (listeners s) \<le> 1"
    by (simp_all add: frame_inv_def)
  from l have "listeners s = [] \<or> (\<exists>c. listeners s = [c])"
    by (cases "listeners s") auto
  then show ?thesis
  proof
    assume "listeners s = []"
    with assms e show ?thesis by (simp add: frame_inv_def)
  next
    assume "\<exists>c. listeners s = [c]"
    then obtain c where c: "listeners s = [c]" ..
    with assms e show ?thesis
      by (auto simp: frame_inv_def detectFace_fields detectFace_in_flight)
  qed
qed

lemma frame_inv_frame:
  assumes "frame_inv s"
  shows "frame_inv (step AnimationFrame s)"
proof (cases "raf_queue s")
  case Nil
  with assms show ?thesis by simp
next
  case (Cons c q)
  with assms show ?thesis
    by (auto simp: frame_inv_def detectFace_fields detectFace_in_flight split: if_splits)
qed

lemma frame_inv_resolved:
  assumes "frame_inv s"
  shows "frame_inv (step (DetectResolved r) s)"
proof (cases "in_flight s")
  case Nil
  with assms show ?thesis by simp
next
  case (Cons c q)
  with assms show ?thesis
    by (auto simp: frame_inv_def detectFace_resume_fields detectFace_resume_raf canvasRef_def
          split: if_splits)
qed

lemma frame_inv_step:
  assumes "frame_inv s" "timer_inv s"
  shows "frame_inv (step e s)"
proof (cases e)
  case DetectorLoaded
  with assms show ?thesis by (auto simp: frame_inv_def)
next
  case ClickStart
  with assms show ?thesis by (auto simp: frame_inv_def videoRef_def)
next
  case DetectorFailed
  with assms show ?thesis by (auto simp: frame_inv_def reject_def)
next
  case StreamGranted
  with assms show ?thesis by (auto simp: frame_inv_def reject_def)
next
  case StreamDenied
  with assms show ?thesis by (auto simp: frame_inv_def reject_def)
next
  case DetectFailed
  with assms show ?thesis by (auto simp: frame_inv_def reject_def split: list.splits if_splits)
next
  case LoadedData
  show ?thesis
  proof (cases "video_src s \<and> \<not> video_loaded s")
    case True
    then show ?thesis using frame_inv_loaded [OF assms(1)] LoadedData by (simp del: step.simps)
  next
    case False
    then show ?thesis using assms LoadedData by auto
  qed
next
  case AnimationFrame
  then show ?thesis using frame_inv_frame [OF assms(1)] by (simp del: step.simps)
next
  case (DetectResolved r)
  then show ?thesis using frame_inv_resolved [OF assms(1)] by (simp del: step.simps)
next
  case Tick
  then show ?thesis using frame_inv_tick [OF assms(2)] assms(1) by (simp del: step.simps)
next
  case Unmount
  with assms show ?thesis
    by (auto simp: frame_inv_def timer_cleanup_def clearInterval_def split: option.splits)
qed

lemma invs_run:
  assumes "frame_inv s" "timer_inv s"
  shows "frame_inv (run evs s)"
  using assms
proof (induction evs arbitrary: s)
  case Nil
  then show ?case by (simp add: run_Nil)
next
  case (Cons e evs)
  show ?case
    using Cons.IH [OF frame_inv_step [OF Cons.prems] timer_inv_step [OF Cons.prems(2)]]
    by (simp add: run_Cons del: step.simps)
qed

lemma frame_inv_reachable: "frame_inv (run evs init)"
  by (rule invs_run [OF frame_inv_init timer_inv_init])

text \<open>
  C4: in every execution at most one \<open>detectForVideo\<close> call is outstanding, and a frame
  callback is queued only when none is: the loop re-arms after the previous detection
  has resolved. (The video fires \<open>loadeddata\<close> once and Start can be clicked once, so
  there is a single chain.)
\<close>

theorem single_flight:
  "length (in_flight (run evs init)) \<le> 1
   \<and> length (in_flight (run evs init)) + length (raf_queue (run evs init)) \<le> 1"
  using frame_inv_reachable [of evs] by (auto simp: frame_inv_def split: if_splits)


section \<open>Ticks without a detector\<close>

lemma fold_detectFace_None: "set cs \<subseteq> {None} \<Longrightarrow> fold detectFace cs s = s"
  by (induction cs arbitrary: s) (simp_all add: detectFace_def)

text \<open>
  C7: a frame-loop tick on which the detector handle is absent draws nothing and leaves
  \<open>timer\<close> and \<open>timerRunning\<close> alone. A call of \<open>detectFace\<close> whose closure holds \<open>null\<close>
  returns the state as it was; and while the state variable \<open>faceLandmarker\<close> is \<open>null\<close>,
  every closure of the loop holds \<open>null\<close>, so the \<open>loadeddata\<close> callback and an animation
  frame change neither the canvas nor the timer state, and no detection is outstanding
  whose result could.
\<close>

theorem absent_detector_no_effect:
  "detectFace None s = s
   \<and> (faceLandmarker (run evs init) = None \<longrightarrow>
        canvas (step LoadedData (run evs init)) = canvas (run evs init)
        \<and> timer (step LoadedData (run evs init)) = timer (run evs init)
        \<and> timerRunning (step LoadedData (run evs init)) = timerRunning (run evs init)
        \<and> canvas (step AnimationFrame (run evs init)) = canvas (run evs init)
        \<and> timer (step AnimationFrame (run evs init)) = timer (run evs init)
        \<and> timerRunning (step AnimationFrame (run evs init)) = timerRunning (run evs init)
        \<and> step (DetectResolved r) (run evs init) = run evs init)"
proof -
  have a: "detectFace None s = s" by (simp add: detectFace_def)
  have b: "canvas (step LoadedData t) = canvas t \<and> timer (step LoadedData t) = timer t
      \<and> timerRunning (step LoadedData t) = timerRunning t
      \<and> canvas (step AnimationFrame t) = canvas t \<and> timer (step AnimationFrame t) = timer t
      \<and> timerRunning (step AnimationFrame t) = timerRunning t
      \<and> step (DetectResolved r) t = t"
    if "faceLandmarker t = None" "frame_inv t" for t
  proof -
    from that have l: "set (listeners t) \<subseteq> {None}" by (simp add: frame_inv_def)
    from that have n: "None \<notin> set (raf_queue t)" "None \<notin> set (in_flight t)"
      "set (raf_queue t) \<union> set (in_flight t) \<subseteq> set (listeners t)" by (simp_all add: frame_inv_def)
    have q: "raf_queue t = []"
    proof (cases "raf_queue t")
      case (Cons c q)
      with n l show ?thesis by auto
    qed simp
    have f: "in_flight t = []"
    proof (cases "in_flight t")
      case (Cons c q)
      with n l show ?thesis by auto
    qed simp
    show ?thesis using q f by (simp add: fold_detectFace_fields)
  qed
  show ?thesis using a b [OF _ frame_inv_reachable] by (simp del: step.simps)
qed

theorem absent_detector_no_effect_witness:
  "faceLandmarker (run [ClickStart, StreamGranted] init) = None
   \<and> listeners (run [ClickStart, StreamGranted] init) = [None]
   \<and> canvas (step LoadedData (run [ClickStart, StreamGranted] init)) = []
   \<and> timer (step LoadedData (run [ClickStart, StreamGranted] init)) = 1800
   \<and> \<not> timerRunning (step LoadedData (run [ClickStart, StreamGranted] init))"
proof -
  have s: "faceLandmarker (run [ClickStart, StreamGranted] init) = None"
    "listeners (run [ClickStart, StreamGranted] init) = [None]"
    "canvas (run [ClickStart, StreamGranted] init) = []"
    "timer (run [ClickStart, StreamGranted] init) = 1800"
    "\<not> timerRunning (run [ClickStart, StreamGranted] init)"
    by (simp_all add: run_def init_def timer_effect_def videoRef_def)
  show ?thesis
    using absent_detector_no_effect [of init "[ClickStart, StreamGranted]" "[]"] s
    by (simp del: step.simps)
qed


section \<open>Re-arming and the captured detector\<close>

lemma late_start_state:
  "mounted (run [ClickStart, StreamGranted, LoadedData] init)"
  "faceLandmarker (run [ClickStart, StreamGranted, LoadedData] init) = None"
  "video_loaded (run [ClickStart, StreamGranted, LoadedData] init)"
  "raf_queue (run [ClickStart, StreamGranted, LoadedData] init) = []"
  "in_flight (run [ClickStart, StreamGranted, LoadedData] init) = []"
  by (simp_all add: run_def init_def timer_effect_def videoRef_def detectFace_def)

text \<open>
  C3 as stated fails: Start is clicked before the detector has loaded, the stream is
  granted and the video loads. The first tick has run, the component is still mounted,
  and no next tick is scheduled.
\<close>

theorem rearm_counterexample:
  "mounted (run [ClickStart, StreamGranted, LoadedData] init)
   \<and> video_loaded (run [ClickStart, StreamGranted, LoadedData] init)
   \<and> faceLandmarker (run [ClickStart, StreamGranted, LoadedData] init) = None
   \<and> raf_queue (run [ClickStart, StreamGranted, LoadedData] init) = []
   \<and> in_flight (run [ClickStart, StreamGranted, LoadedData] init) = []"
  using late_start_state by simp

text \<open>
  C3, amended: on a tick whose closure holds a detector, while the canvas is rendered,
  the detection is issued and, when it resolves, the next tick is scheduled whatever the
  outcome. On a tick whose closure holds no detector nothing is done and no next tick is
  scheduled. Once the canvas is gone (teardown) a resolving detection schedules nothing.
\<close>

theorem rearm_when_detector_held:
  "(canvasRef s \<and> in_flight s = c # q \<longrightarrow>
      raf_queue (step (DetectResolved r) s) = raf_queue s @ [c]
      \<and> in_flight (step (DetectResolved r) s) = q)
   \<and> (canvasRef s \<and> raf_queue s = Some d # q \<longrightarrow>
      in_flight (step AnimationFrame s) = in_flight s @ [Some d]
      \<and> raf_queue (step AnimationFrame s) = q)
   \<and> (set (listeners s) \<subseteq> {None} \<and> video_src s \<and> \<not> video_loaded s \<longrightarrow>
      step LoadedData s = s\<lparr>video_loaded := True\<rparr>)
   \<and> (\<not> canvasRef s \<longrightarrow> raf_queue (step (DetectResolved r) s) = raf_queue s)"
proof -
  have a: "raf_queue (step (DetectResolved r) s) = raf_queue s @ [c]
      \<and> in_flight (step (DetectResolved r) s) = q" if "canvasRef s" "in_flight s = c # q"
    using that by (simp add: detectFace_resume_raf detectFace_resume_fields canvasRef_def)
  have b: "in_flight (step AnimationFrame s) = in_flight s @ [Some d]
      \<and> raf_queue (step AnimationFrame s) = q" if "canvasRef s" "raf_queue s = Some d # q"
    using that by (simp add: detectFace_in_flight detectFace_fields canvasRef_def)
  have d: "step LoadedData s = s\<lparr>video_loaded := True\<rparr>"
    if "set (listeners s) \<subseteq> {None}" "video_src s" "\<not> video_loaded s"
    using that fold_detectFace_None [of "listeners s" "s\<lparr>video_loaded := True\<rparr>"] by simp
  have e: "raf_queue (step (DetectResolved r) s) = raf_queue s" if "\<not> canvasRef s"
    using that by (simp add: detectFace_resume_unmounted reject_def canvasRef_def split: list.splits)
  show ?thesis using a b d e by (simp del: step.simps)
qed


lemma running_states:
  "canvasRef (run start_session init)"
  "raf_queue (run start_session init) = [Some FaceLandmarker]"
  "in_flight (run start_session init) = []"
  "canvasRef (run (start_session @ [AnimationFrame]) init)"
  "in_flight (run (start_session @ [AnimationFrame]) init) = [Some FaceLandmarker]"
  "raf_queue (run (start_session @ [AnimationFrame]) init) = []"
  "\<not> canvasRef (run (start_session @ [AnimationFrame, Unmount]) init)"
  "raf_queue (run (start_session @ [AnimationFrame, Unmount]) init) = []"
  "set (listeners (run [ClickStart, StreamGranted] init)) \<subseteq> {None}"
  "video_src (run [ClickStart, StreamGranted] init)"
  "\<not> video_loaded (run [ClickStart, StreamGranted] init)"
  "raf_queue (run [ClickStart, StreamGranted] init) = []"
  by (simp_all add: start_session_def run_def init_def timer_effect_def detectFace_def
        detectFace_resume_def canvasRef_def videoRef_def setTimerRunning_def rerender_def
        timer_cleanup_def setInterval_def clearInterval_def)

theorem rearm_when_detector_held_witness:
  "raf_queue (step (DetectResolved []) (run (start_session @ [AnimationFrame]) init)) = [Some FaceLandmarker]
   \<and> in_flight (step AnimationFrame (run start_session init)) = [Some FaceLandmarker]
   \<and> raf_queue (step LoadedData (run [ClickStart, StreamGranted] init)) = []
   \<and> raf_queue (step (DetectResolved []) (run (start_session @ [AnimationFrame, Unmount]) init)) = []"
  using rearm_when_detector_held [of "run (start_session @ [AnimationFrame]) init" "Some FaceLandmarker" "[]" "[]"]
    rearm_when_detector_held [of "run start_session init" _ _ _ FaceLandmarker]
    rearm_when_detector_held [of "run [ClickStart, StreamGranted] init"]
    rearm_when_detector_held [of "run (start_session @ [AnimationFrame, Unmount]) init" _ _ "[]"]
    running_states
  by (simp del: step.simps)

lemma idle_init: "idle init"
  by (simp add: idle_def init_def timer_effect_def)

lemma idle_step:
  assumes "idle s" "e = ClickStart \<Longrightarrow> faceLandmarker s = None \<or> isStarted s \<or> \<not> mounted s"
  shows "idle (step e s)"
proof (cases e)
  case LoadedData
  with assms(1) show ?thesis by (simp add: idle_def fold_detectFace_None)
next
  case ClickStart
  with assms show ?thesis by (auto simp: idle_def)
next
  case Unmount
  with assms(1) show ?thesis
    by (simp add: idle_def timer_cleanup_def clearInterval_def split: option.splits)
qed (use assms(1) in \<open>simp_all add: idle_def reject_def split: list.splits\<close>)

lemma isStarted_step: "isStarted s \<Longrightarrow> isStarted (step e s)"
proof (cases e)
  case Tick
  assume "isStarted s"
  have "isStarted (fold (\<lambda>h s'. if h \<in> set (active_intervals s') then interval_callback s' else s') hs s)
      = isStarted s" for hs
    by (induction hs arbitrary: s) (simp_all add: interval_callback_def setTimer_fields)
  with \<open>isStarted s\<close> Tick show ?thesis by simp
next
  case Unmount
  assume "isStarted s"
  with Unmount show ?thesis by (simp add: timer_cleanup_def clearInterval_def split: option.splits)
qed (simp_all add: reject_def fold_detectFace_fields detectFace_fields detectFace_resume_fields
      split: list.splits)

lemma idle_started_run: "idle s \<Longrightarrow> isStarted s \<Longrightarrow> idle (run evs s)"
proof (induction evs arbitrary: s)
  case Nil
  then show ?case by (simp add: run_Nil)
next
  case (Cons e evs)
  have "idle (step e s)" by (rule idle_step [OF Cons.prems(1)]) (simp add: Cons.prems(2))
  from Cons.IH [OF this isStarted_step [OF Cons.prems(2)]] show ?case
    by (simp add: run_Cons del: step.simps)
qed

lemma idle_until_started: "isStarted (run evs init) \<or> idle (run evs init)"
proof (induction evs rule: rev_induct)
  case Nil
  then show ?case by (simp add: run_Nil idle_init)
next
  case (snoc e evs)
  show ?case
  proof (cases "isStarted (run evs init)")
    case True
    then show ?thesis using isStarted_step [of "run evs init" e]
      by (simp add: run_append run_Cons run_Nil del: step.simps)
  next
    case False
    with snoc have i: "idle (run evs init)" by simp
    show ?thesis
    proof (cases "e = ClickStart \<and> mounted (run evs init) \<and> faceLandmarker (run evs init) \<noteq> None")
      case True
      with False show ?thesis by (simp add: run_append run_Cons run_Nil)
    next
      case False
      have "idle (step e (run evs init))" by (rule idle_step [OF i]) (use False in auto)
      then show ?thesis by (simp add: run_append run_Cons run_Nil del: step.simps)
    qed
  qed
qed

lemma early_start_never_detects:
  assumes "mounted (run pre init)" "\<not> isStarted (run pre init)"
    "faceLandmarker (run pre init) = None"
  shows "idle (run (pre @ ClickStart # evs) init)"
proof -
  from idle_until_started [of pre] assms(2) have i: "idle (run pre init)" by simp
  have i': "idle (step ClickStart (run pre init))" by (rule idle_step [OF i]) (simp add: assms(3))
  have "isStarted (step ClickStart (run pre init))" using assms(1) assms(2) by simp
  from idle_started_run [OF i' this, of evs] show ?thesis
    by (simp add: run_append run_Cons del: step.simps)
qed

text \<open>
  C5 is not what the code does. \<open>detectFace\<close> is created when Start is clicked and keeps
  the \<open>faceLandmarker\<close> of that render; its test \<open>if (faceLandmarker)\<close> reads that captured
  value on every tick, not the state. At the order Start, detector loaded, stream granted,
  \<open>loadeddata\<close>, the detector is in the state when the first tick runs, yet the tick
  issues no detection, queues no frame and draws nothing, and a later animation frame and
  timer period find nothing to run. With the detector loaded before Start, the same tick
  issues a detection. (By \<open>early_start_never_detects\<close> the loop stays dead whatever
  events follow a Start that came before the detector.)
\<close>

theorem stale_detector_at_failing_input:
  "faceLandmarker (run [ClickStart, DetectorLoaded, StreamGranted, LoadedData] init)
      = Some FaceLandmarker
   \<and> mounted (run [ClickStart, DetectorLoaded, StreamGranted, LoadedData] init)
   \<and> video_loaded (run [ClickStart, DetectorLoaded, StreamGranted, LoadedData] init)
   \<and> listeners (run [ClickStart, DetectorLoaded, StreamGranted, LoadedData] init) = [None]
   \<and> in_flight (run [ClickStart, DetectorLoaded, StreamGranted, LoadedData] init) = []
   \<and> raf_queue (run [ClickStart, DetectorLoaded, StreamGranted, LoadedData] init) = []
   \<and> canvas (run [ClickStart, DetectorLoaded, StreamGranted, LoadedData] init) = []
   \<and> in_flight (run [ClickStart, DetectorLoaded, StreamGranted, LoadedData, AnimationFrame, Tick] init) = []
   \<and> raf_queue (run [ClickStart, DetectorLoaded, StreamGranted, LoadedData, AnimationFrame, Tick] init) = []
   \<and> \<not> timerRunning (run [ClickStart, DetectorLoaded, StreamGranted, LoadedData, AnimationFrame, Tick] init)
   \<and> in_flight (run [DetectorLoaded, ClickStart, StreamGranted, LoadedData] init) = [Some FaceLandmarker]"
  by (simp add: run_def init_def timer_effect_def videoRef_def canvasRef_def detectFace_def)

end
